theory Spec2Isabelle
  imports Complex_Main "HOL-Library.Word"
begin

unbundle bit_operations_syntax

section \<open>Data model\<close>

text \<open>
  A fingerprint is a Go slice \<^verbatim>\<open>[]int32\<close>: a list of 32-bit words, read as two's
  complement by \<open>sint\<close>.
\<close>

type_synonym int32 = "32 word"

text \<open>
  Go's \<^verbatim>\<open>int\<close> is 32 bits wide on some targets (386, arm) and 64 bits on the others, and
  its arithmetic wraps around in two's complement. The functions that compute with
  \<^verbatim>\<open>int\<close> take the target as a parameter; \<open>go_int p x\<close> is the value an \<^verbatim>\<open>int\<close> holds
  on target \<open>p\<close> after an operation whose exact result is \<open>x\<close>. Slice lengths, indices
  and the two coordinates of a pixel are themselves not wrapped: they are bounded by the
  length of a slice that exists.
\<close>

datatype arch = Arch32 | Arch64

fun intSize :: "arch \<Rightarrow> nat" where
  "intSize Arch32 = 32"
| "intSize Arch64 = 64"

definition go_int :: "arch \<Rightarrow> int \<Rightarrow> int" where
  "go_int p x = signed_take_bit (intSize p - 1) x"

text \<open>The package has one error value, \<^verbatim>\<open>ErrLength\<close>; Go's \<^verbatim>\<open>nil\<close> error is \<open>None\<close>.\<close>

datatype error = ErrLength

text \<open>
  A Go call either returns its results or panics (an index out of range is the only
  panic the source could raise).
\<close>

datatype 'a outcome = Panics | Returns 'a

text \<open>
  A \<^verbatim>\<open>float64\<close> is modelled by the exact rational it denotes, together with the three
  special values of IEEE 754 that division can produce. Rounding to 53 bits of
  significand is not modelled, and neither is the sign of zero.
\<close>

datatype float64 = Fin rat | PInf | NInf | NaN

definition float64_of_int :: "int \<Rightarrow> float64" where
  "float64_of_int i = Fin (of_int i)"

fun f64_neg :: "float64 \<Rightarrow> float64" where
  "f64_neg (Fin r) = Fin (- r)"
| "f64_neg PInf = NInf"
| "f64_neg NInf = PInf"
| "f64_neg NaN = NaN"

text \<open>Division of floats never panics in Go: \<open>0/0\<close> is NaN and \<open>x/0\<close> is an infinity.\<close>

fun f64_div :: "float64 \<Rightarrow> float64 \<Rightarrow> float64" where
  "f64_div (Fin a) (Fin b) =
     (if b = 0 then (if a = 0 then NaN else if 0 < a then PInf else NInf)
      else Fin (a / b))"
| "f64_div NaN _ = NaN"
| "f64_div _ NaN = NaN"
| "f64_div (Fin a) _ = Fin 0"
| "f64_div PInf (Fin b) = (if 0 \<le> b then PInf else NInf)"
| "f64_div NInf (Fin b) = (if 0 \<le> b then NInf else PInf)"
| "f64_div _ _ = NaN"

fun f64_sub :: "float64 \<Rightarrow> float64 \<Rightarrow> float64" where
  "f64_sub (Fin a) (Fin b) = Fin (a - b)"
| "f64_sub NaN _ = NaN"
| "f64_sub _ NaN = NaN"
| "f64_sub (Fin a) y = f64_neg y"
| "f64_sub PInf (Fin b) = PInf"
| "f64_sub NInf (Fin b) = NInf"
| "f64_sub PInf NInf = PInf"
| "f64_sub NInf PInf = NInf"
| "f64_sub _ _ = NaN"

definition bitsperint :: int where
  "bitsperint = 32"

section \<open>hamming\<close>

text \<open>
  \<^verbatim>\<open>strconv.FormatInt(i, 2)\<close>: the binary digits of the magnitude of \<open>i\<close>, most
  significant first, after a minus sign when \<open>i\<close> is negative; zero is \<^verbatim>\<open>"0"\<close>.
\<close>

fun formatBits :: "nat \<Rightarrow> string" where
  "formatBits u =
     (if u < 2 then [if u = 0 then CHR ''0'' else CHR ''1'']
      else formatBits (u div 2) @ [if u mod 2 = 0 then CHR ''0'' else CHR ''1''])"

declare formatBits.simps [simp del]

definition FormatInt2 :: "int \<Rightarrow> string" where
  "FormatInt2 i = (if i < 0 then CHR ''-'' # formatBits (nat (- i)) else formatBits (nat i))"

text \<open>\<^verbatim>\<open>strings.Count(s, "1")\<close> with a one-byte pattern counts the bytes equal to it.\<close>

definition strings_Count :: "string \<Rightarrow> char \<Rightarrow> int" where
  "strings_Count s c = int (length (filter (\<lambda>x. x = c) s))"

text \<open>
  \<^verbatim>\<open>dist = strings.Count(strconv.FormatInt(int64(a^b), 2), "1")\<close>. The conversion
  \<^verbatim>\<open>int64(a^b)\<close> sign-extends, so it is \<open>sint\<close> of the 32-bit XOR.
\<close>

definition hamming :: "int32 \<Rightarrow> int32 \<Rightarrow> int" where
  "hamming a b = strings_Count (FormatInt2 (sint (a XOR b))) (CHR ''1'')"

section \<open>Compare\<close>

text \<open>
  The loop \<^verbatim>\<open>for i, sub := range fprint1 { dist += hamming(sub, fprint2[i]) }\<close>, started
  at index \<open>i\<close> with the accumulator \<^verbatim>\<open>dist\<close> (here \<open>d\<close>); the first argument is what is left of
  \<^verbatim>\<open>fprint1\<close>. Reading \<^verbatim>\<open>fprint2[i]\<close> out of range panics. The accumulator is an
  \<^verbatim>\<open>int\<close>, so the addition wraps.
\<close>

fun Compare_loop ::
  "arch \<Rightarrow> int32 list \<Rightarrow> int32 list \<Rightarrow> nat \<Rightarrow> int \<Rightarrow> int outcome" where
  "Compare_loop p [] fprint2 i d = Returns d"
| "Compare_loop p (sub # rest) fprint2 i d =
     (if i < length fprint2
      then Compare_loop p rest fprint2 (Suc i) (go_int p (d + hamming sub (fprint2 ! i)))
      else Panics)"

text \<open>
  The divisor \<^verbatim>\<open>len(fprint1)*bitsperint\<close> is a product of two \<^verbatim>\<open>int\<close>s, wrapped before
  it is converted to \<^verbatim>\<open>float64\<close>.
\<close>

definition Compare ::
  "arch \<Rightarrow> int32 list \<Rightarrow> int32 list \<Rightarrow> (float64 \<times> error option) outcome" where
  "Compare p fprint1 fprint2 =
     (if length fprint1 \<noteq> length fprint2 then Returns (Fin 0, Some ErrLength)
      else case Compare_loop p fprint1 fprint2 0 0 of
             Panics \<Rightarrow> Panics
           | Returns d \<Rightarrow>
               Returns (f64_sub (Fin 1)
                          (f64_div (float64_of_int d)
                                   (float64_of_int (go_int p (int (length fprint1) * bitsperint)))),
                        None))"

text \<open>
  The score the specification describes: the Hamming distance of two elements is the
  number of bit positions, out of 32, at which they differ, and the score is one minus
  the total distance over \<open>len(a) * 32\<close>.
\<close>

definition spec_hamming :: "int32 \<Rightarrow> int32 \<Rightarrow> int" where
  "spec_hamming a b = int (length (filter (bit (a XOR b)) [0..<32]))"

definition spec_distance :: "int32 list \<Rightarrow> int32 list \<Rightarrow> int" where
  "spec_distance a b = sum_list (map2 spec_hamming a b)"

definition spec_score :: "int32 list \<Rightarrow> int32 list \<Rightarrow> float64" where
  "spec_score a b =
     f64_sub (Fin 1)
       (f64_div (float64_of_int (spec_distance a b)) (float64_of_int (int (length a) * 32)))"

section \<open>Distance\<close>

text \<open>
  The loop \<^verbatim>\<open>for i, sub := range fprint1 { dist[i] = sub ^ fprint2[i] }\<close> over the slice
  \<^verbatim>\<open>dist\<close> (here \<open>dst\<close>) made by \<^verbatim>\<open>make([]int32, len(fprint1))\<close>. Both indexings
  panic out of range.
\<close>

fun Distance_loop :: "int32 list \<Rightarrow> int32 list \<Rightarrow> nat \<Rightarrow> int32 list \<Rightarrow> int32 list outcome" where
  "Distance_loop [] fprint2 i dst = Returns dst"
| "Distance_loop (sub # rest) fprint2 i dst =
     (if i < length fprint2 \<and> i < length dst
      then Distance_loop rest fprint2 (Suc i) (dst[i := sub XOR fprint2 ! i])
      else Panics)"

text \<open>The returned slice is \<open>None\<close> when it is Go's \<^verbatim>\<open>nil\<close>.\<close>

definition Distance ::
  "int32 list \<Rightarrow> int32 list \<Rightarrow> (int32 list option \<times> error option) outcome" where
  "Distance fprint1 fprint2 =
     (if length fprint1 \<noteq> length fprint2 then Returns (None, Some ErrLength)
      else case Distance_loop fprint1 fprint2 0 (replicate (length fprint1) 0) of
             Panics \<Rightarrow> Panics
           | Returns dst \<Rightarrow> Returns (Some dst, None))"

section \<open>Images\<close>





















section \<open>Auxiliary notions for the proofs\<close>

text \<open>The number of bits set among the lowest \<open>k\<close> bits of a natural number.\<close>

definition pop :: "nat \<Rightarrow> nat \<Rightarrow> nat" where
  "pop k n = length (filter (bit n) [0..<k])"

text \<open>The distance \<^verbatim>\<open>Compare\<close> accumulates over two slices of equal length.\<close>

definition total_hamming :: "int32 list \<Rightarrow> int32 list \<Rightarrow> int" where
  "total_hamming a b = sum_list (map2 hamming a b)"



section \<open>Properties of hamming\<close>

lemma strings_Count_nonneg: "0 \<le> strings_Count s c"
  by (simp add: strings_Count_def)

lemma strings_Count_append:
  "strings_Count (s @ t) c = strings_Count s c + strings_Count t c"
  by (simp add: strings_Count_def)

lemma strings_Count_Cons:
  "strings_Count (x # s) c = (if x = c then 1 else 0) + strings_Count s c"
  by (simp add: strings_Count_def)

lemma strings_Count_Nil: "strings_Count [] c = 0"
  by (simp add: strings_Count_def)

lemma pop_Suc: "pop (Suc k) n = (if odd n then 1 else 0) + pop k (n div 2)"
proof -
  have "[0..<Suc k] = 0 # map Suc [0..<k]"
    by (simp add: upt_conv_Cons map_Suc_upt del: upt_Suc)
  then show ?thesis
    by (simp add: pop_def filter_map comp_def bit_Suc bit_0 del: upt_Suc)
qed

lemma pop_0: "pop k 0 = 0"
  by (simp add: pop_def)

lemma formatBits_count:
  "n < 2 ^ k \<Longrightarrow> strings_Count (formatBits n) (CHR ''1'') = int (pop k n)"
proof (induction k arbitrary: n)
  case 0
  then show ?case by (simp add: formatBits.simps [of 0] strings_Count_def pop_def)
next
  case (Suc k)
  show ?case
  proof (cases "n < 2")
    case True
    then have "n = 0 \<or> n = 1" by auto
    then show ?thesis
      by (auto simp: formatBits.simps [of n] strings_Count_def pop_Suc pop_0)
  next
    case False
    from Suc.prems have "n div 2 < 2 ^ k" by simp
    then have "strings_Count (formatBits (n div 2)) (CHR ''1'') = int (pop k (n div 2))"
      by (rule Suc.IH)
    with False show ?thesis
      by (simp add: formatBits.simps [of n] strings_Count_append strings_Count_Cons
          strings_Count_Nil pop_Suc odd_iff_mod_2_eq_one)
  qed
qed

lemma formatBits_count_zero:
  "strings_Count (formatBits n) (CHR ''1'') = 0 \<longleftrightarrow> n = 0"
proof (induction n rule: formatBits.induct)
  case (1 u)
  show ?case
  proof (cases "u < 2")
    case True
    then have "u = 0 \<or> u = 1" by auto
    then show ?thesis
      by (auto simp: formatBits.simps [of u] strings_Count_def)
  next
    case False
    then have "u div 2 \<noteq> 0" by simp
    with 1 False have "strings_Count (formatBits (u div 2)) (CHR ''1'') \<noteq> 0" by simp
    moreover have "0 \<le> strings_Count (formatBits (u div 2)) (CHR ''1'')"
      by (rule strings_Count_nonneg)
    ultimately have "0 < strings_Count (formatBits (u div 2)) (CHR ''1'')" by simp
    with False show ?thesis
      by (simp add: formatBits.simps [of u] strings_Count_append strings_Count_Cons strings_Count_Nil)
  qed
qed

lemma hamming_commute: "hamming a b = hamming b a"
  by (simp add: hamming_def xor.commute)

lemma hamming_nonneg: "0 \<le> hamming a b"
  by (simp add: hamming_def strings_Count_nonneg)

lemma FormatInt2_count:
  "strings_Count (FormatInt2 i) (CHR ''1'') = strings_Count (formatBits (nat \<bar>i\<bar>)) (CHR ''1'')"
  by (simp add: FormatInt2_def strings_Count_Cons)

lemma hamming_eq_0: "hamming a b = 0 \<longleftrightarrow> a = b"
proof -
  have "hamming a b = 0 \<longleftrightarrow> sint (a XOR b) = 0"
    by (simp add: hamming_def FormatInt2_count formatBits_count_zero)
  also have "\<dots> \<longleftrightarrow> a XOR b = 0"
    by (metis sint_0 signed_word_eqI)
  also have "\<dots> \<longleftrightarrow> a = b"
    by (metis xor.right_neutral xor_self_eq xor.assoc)
  finally show ?thesis .
qed

lemma hamming_le: "hamming a b \<le> 32"
proof -
  have "\<bar>sint (a XOR b)\<bar> \<le> 2 ^ 31"
    using sint_ge [of "a XOR b"] sint_lt [of "a XOR b"] by simp
  then have "nat \<bar>sint (a XOR b)\<bar> < 2 ^ 32" by simp
  then have "hamming a b = int (pop 32 (nat \<bar>sint (a XOR b)\<bar>))"
    by (simp add: hamming_def FormatInt2_count formatBits_count)
  also have "\<dots> \<le> 32"
    by (simp add: pop_def del: upt_Suc) (metis diff_zero length_filter_le length_upt)
  finally show ?thesis .
qed

section \<open>Properties of the loops of Compare and Distance\<close>

lemma go_int_idem: "go_int p (go_int p x) = go_int p x"
  by (simp add: go_int_def)

lemma go_int_add_left: "go_int p (go_int p x + y) = go_int p (x + y)"
  unfolding go_int_def
  by (metis signed_take_bit_add signed_take_bit_signed_take_bit min.idem)

lemma go_int_0: "go_int p 0 = 0"
  by (simp add: go_int_def)

lemma go_int_eq_self:
  "- (2 ^ (intSize p - 1)) \<le> x \<Longrightarrow> x < 2 ^ (intSize p - 1) \<Longrightarrow> go_int p x = x"
  by (simp add: go_int_def signed_take_bit_int_eq_self)

lemma Compare_loop_eq:
  "i + length xs \<le> length ys \<Longrightarrow> go_int p d = d \<Longrightarrow>
   Compare_loop p xs ys i d = Returns (go_int p (d + sum_list (map2 hamming xs (drop i ys))))"
proof (induction xs arbitrary: i d)
  case Nil
  then show ?case by simp
next
  case (Cons x xs)
  then have i: "i < length ys" and rest: "Suc i + length xs \<le> length ys" by simp_all
  from i have "drop i ys = ys ! i # drop (Suc i) ys"
    by (simp add: Cons_nth_drop_Suc)
  with i Cons.IH [OF rest go_int_idem, of "d + hamming x (ys ! i)"] show ?case
    by (simp add: go_int_add_left add.assoc)
qed

lemma total_hamming_nonneg: "0 \<le> total_hamming a b"
  unfolding total_hamming_def
  by (induction a b rule: list_induct2') (simp_all add: hamming_nonneg)

lemma total_hamming_le: "length a = length b \<Longrightarrow> total_hamming a b \<le> 32 * int (length a)"
  unfolding total_hamming_def
proof (induction a b rule: list_induct2)
  case Nil
  then show ?case by simp
next
  case (Cons x xs y ys)
  with hamming_le [of x y] show ?case by simp
qed

lemma total_hamming_commute: "total_hamming a b = total_hamming b a"
  unfolding total_hamming_def
  by (induction a b rule: list_induct2') (simp_all add: hamming_commute)

lemma total_hamming_eq_0:
  "length a = length b \<Longrightarrow> total_hamming a b = 0 \<longleftrightarrow> a = b"
  unfolding total_hamming_def
proof (induction a b rule: list_induct2)
  case Nil
  then show ?case by simp
next
  case (Cons x xs y ys)
  have "0 \<le> hamming x y" by (rule hamming_nonneg)
  moreover have "0 \<le> sum_list (map2 hamming xs ys)"
    using total_hamming_nonneg [of xs ys] by (simp add: total_hamming_def)
  ultimately have "hamming x y + sum_list (map2 hamming xs ys) = 0 \<longleftrightarrow>
      hamming x y = 0 \<and> sum_list (map2 hamming xs ys) = 0"
    by linarith
  with Cons.IH show ?case by (simp add: hamming_eq_0)
qed

text \<open>What \<^verbatim>\<open>Compare\<close> returns on slices of equal length, on either target.\<close>

lemma Compare_equal_length_wrapped:
  "length a = length b \<Longrightarrow>
   Compare p a b =
     Returns (f64_sub (Fin 1)
                (f64_div (Fin (of_int (go_int p (total_hamming a b))))
                         (Fin (of_int (go_int p (int (length a) * 32))))),
              None)"
  by (simp add: Compare_def Compare_loop_eq go_int_0 total_hamming_def float64_of_int_def
      bitsperint_def)

text \<open>
  As long as \<^verbatim>\<open>len(fprint1)*bitsperint\<close> fits in an \<^verbatim>\<open>int\<close>, nothing wraps: the
  accumulated distance is at most that product.
\<close>

lemma Compare_equal_length:
  assumes len: "length a = length b"
    and fits: "int (length a) * 32 < 2 ^ (intSize p - 1)"
  shows "Compare p a b =
     Returns (if a = [] then NaN
              else Fin (1 - of_int (total_hamming a b) / (of_int (int (length a)) * 32)),
              None)"
proof -
  have D0: "0 \<le> total_hamming a b" by (rule total_hamming_nonneg)
  have D1: "total_hamming a b \<le> 32 * int (length a)" using len by (rule total_hamming_le)
  have "go_int p (total_hamming a b) = total_hamming a b"
    using D0 D1 fits by (intro go_int_eq_self) simp_all
  moreover have "go_int p (int (length a) * 32) = int (length a) * 32"
    using fits by (intro go_int_eq_self) simp_all
  ultimately show ?thesis
    using len by (auto simp: Compare_equal_length_wrapped total_hamming_def)
qed

lemma Compare_unequal_length:
  "length a \<noteq> length b \<Longrightarrow> Compare p a b = Returns (Fin 0, Some ErrLength)"
  by (simp add: Compare_def)

lemma Distance_loop_eq:
  "i + length xs = length ys \<Longrightarrow> length dst = length ys \<Longrightarrow>
   Distance_loop xs ys i dst = Returns (take i dst @ map2 (XOR) xs (drop i ys))"
proof (induction xs arbitrary: i dst)
  case Nil
  then show ?case by simp
next
  case (Cons x xs)
  then have i: "i < length ys" "i < length dst" and rest: "Suc i + length xs = length ys"
    by simp_all
  let ?dst = "dst[i := x XOR ys ! i]"
  have len: "length ?dst = length ys" using Cons.prems by simp
  have "take (Suc i) ?dst = take i dst @ [x XOR ys ! i]"
    using i by (simp add: take_Suc_conv_app_nth)
  moreover from i have "drop i ys = ys ! i # drop (Suc i) ys"
    by (simp add: Cons_nth_drop_Suc)
  ultimately show ?case
    using i Cons.IH [OF rest len] by simp
qed

lemma Distance_equal_length:
  "length a = length b \<Longrightarrow> Distance a b = Returns (Some (map2 (XOR) a b), None)"
  by (simp add: Distance_def Distance_loop_eq)

lemma Distance_unequal_length:
  "length a \<noteq> length b \<Longrightarrow> Distance a b = Returns (None, Some ErrLength)"
  by (simp add: Distance_def)

section \<open>Properties of the image loops\<close>














section \<open>The claims\<close>

text \<open>
  The two examples the specification gives: one element \<open>0\<close> against \<open>15\<close> differs in
  four bits, and \<open>[5, 9]\<close> against itself in none.
\<close>

lemma Compare_example:
  "Compare p [0] [15] = Returns (Fin (7 / 8), None) \<and>
   Distance [0] [15] = Returns (Some [15], None)"
  by (cases p)
    (simp_all add: Compare_def Distance_def hamming_def FormatInt2_def formatBits.simps
      strings_Count_def float64_of_int_def bitsperint_def go_int_def)

lemma Compare_example_equal:
  "Compare p [5, 9] [5, 9] = Returns (Fin 1, None) \<and>
   Distance [5, 9] [5, 9] = Returns (Some [0, 0], None)"
  by (cases p)
    (simp_all add: Compare_def Distance_def hamming_def FormatInt2_def formatBits.simps
      strings_Count_def float64_of_int_def bitsperint_def go_int_def)

lemma xor_eq_0_iff_word: "a XOR b = 0 \<longleftrightarrow> a = b" for a b :: int32
  by (metis bit.xor_left_self xor.right_neutral)

lemma hamming_eq_spec_hamming:
  assumes "\<not> bit (a XOR b) 31"
  shows "hamming a b = spec_hamming a b"
proof -
  let ?w = "a XOR b"
  have "sint ?w = uint ?w"
  proof (rule bit_eqI)
    fix n
    show "bit (sint ?w) n \<longleftrightarrow> bit (uint ?w) n"
      using assms bit_imp_le_length [of ?w n] by (auto simp: bit_sint_iff bit_uint_iff)
  qed
  then have abs: "nat \<bar>sint ?w\<bar> = unat ?w" by simp
  have "unat ?w < 2 ^ 32" using unsigned_less [of ?w] by simp
  then have "hamming a b = int (pop 32 (unat ?w))"
    by (simp add: hamming_def FormatInt2_count abs formatBits_count)
  also have "pop 32 (unat ?w) = length (filter (bit ?w) [0..<32])"
  proof -
    have "bit (unat ?w) = bit ?w"
      by (rule ext) (simp add: bit_unsigned_iff)
    then show ?thesis by (simp only: pop_def)
  qed
  finally show ?thesis by (simp add: spec_hamming_def)
qed

text \<open>
  C1. The claim: for equal lengths, \<^verbatim>\<open>Compare\<close> returns \<open>1 - D / (len(a) * 32)\<close> with
  \<open>D\<close> the sum of the Hamming distances of the 32-bit representations. The code counts
  the digits \<^verbatim>\<open>1\<close> of the signed rendering in base 2, so two elements
  that differ in the sign bit are counted by the magnitude of the negative XOR. For
  \<open>a = [0]\<close> and \<open>b = [-1]\<close> all 32 bits differ and the specified score is \<open>0\<close>,
  while \<^verbatim>\<open>FormatInt(-1, 2)\<close> is \<^verbatim>\<open>"-1"\<close> and \<^verbatim>\<open>Compare\<close> returns \<open>31/32\<close>, on
  either target.
\<close>

theorem C1_Compare_sign_bit:
  "Compare p [0] [- 1] = Returns (Fin (31 / 32), None) \<and> spec_score [0] [- 1] = Fin 0"
proof -
  have "Compare p [0] [- 1] = Returns (Fin (31 / 32), None)"
    by (cases p)
      (simp_all add: Compare_def hamming_def FormatInt2_def formatBits.simps strings_Count_def
        float64_of_int_def bitsperint_def go_int_def)
  moreover have "spec_score [0] [- 1] = Fin 0"
    by (simp add: spec_score_def spec_distance_def spec_hamming_def float64_of_int_def
        bit_minus_1_iff del: upt_Suc)
  ultimately show ?thesis by simp
qed

text \<open>
  C2. For slices of unequal length \<^verbatim>\<open>Compare\<close> returns the score \<open>0\<close> with
  \<^verbatim>\<open>ErrLength\<close> and \<^verbatim>\<open>Distance\<close> returns \<^verbatim>\<open>nil\<close> with \<^verbatim>\<open>ErrLength\<close>. For slices
  of equal length both return without an error, and the vector of \<^verbatim>\<open>Distance\<close> has the
  full length. Neither ever panics, and there is no other error. This holds on either
  target.
\<close>

theorem C2_length_mismatch:
  "(length a \<noteq> length b \<longrightarrow>
      Compare p a b = Returns (Fin 0, Some ErrLength) \<and>
      Distance a b = Returns (None, Some ErrLength)) \<and>
   (length a = length b \<longrightarrow>
      (\<exists>score. Compare p a b = Returns (score, None)) \<and>
      (\<exists>v. Distance a b = Returns (Some v, None) \<and> length v = length a))"
  by (simp add: Compare_unequal_length Distance_unequal_length Compare_equal_length_wrapped
      Distance_equal_length)

theorem C2_length_mismatch_witness:
  "length [1, 2 :: int32] \<noteq> length [1, 2, 3 :: int32] \<and>
   Compare Arch32 [1, 2] [1, 2, 3] = Returns (Fin 0, Some ErrLength) \<and>
   Compare Arch64 [1, 2] [1, 2, 3] = Returns (Fin 0, Some ErrLength) \<and>
   Distance [1, 2] [1, 2, 3] = Returns (None, Some ErrLength) \<and>
   length [1, 2 :: int32] = length [3, 4 :: int32] \<and>
   (\<exists>score. Compare Arch32 [1, 2] [3, 4] = Returns (score, None)) \<and>
   (\<exists>score. Compare Arch64 [1, 2] [3, 4] = Returns (score, None)) \<and>
   (\<exists>v. Distance [1, 2] [3, 4] = Returns (Some v, None) \<and> length v = length [1, 2 :: int32])"
  using C2_length_mismatch [of "[1, 2]" "[1, 2, 3]" Arch32]
    C2_length_mismatch [of "[1, 2]" "[1, 2, 3]" Arch64]
    C2_length_mismatch [of "[1, 2]" "[3, 4]" Arch32]
    C2_length_mismatch [of "[1, 2]" "[3, 4]" Arch64]
  by simp

lemma Compare_self_nonempty:
  "a \<noteq> [] \<Longrightarrow> int (length a) * 32 < 2 ^ (intSize p - 1) \<Longrightarrow>
   Compare p a a = Returns (Fin 1, None)"
  using total_hamming_eq_0 [of a a] by (simp add: Compare_equal_length)

lemma Distance_self: "Distance a a = Returns (Some (replicate (length a) 0), None)"
proof -
  have "map2 (XOR) a a = replicate (length a) 0"
    by (induction a) simp_all
  then show ?thesis by (simp add: Distance_equal_length)
qed

text \<open>
  C3. The claim: \<^verbatim>\<open>Compare(a, a)\<close> is \<open>1.0\<close> and \<^verbatim>\<open>Distance(a, a)\<close> is all zeros for
  every \<open>a\<close>, the empty slice included. The two lemmas above give this for \<^verbatim>\<open>Distance\<close>
  and for \<^verbatim>\<open>Compare\<close> on a non-empty slice whose length times 32 fits in an \<^verbatim>\<open>int\<close>.
  On the empty slice \<^verbatim>\<open>Compare\<close> divides \<open>0.0\<close> by \<open>0.0\<close> and returns NaN, not \<open>1.0\<close>,
  on either target.
\<close>

theorem C3_Compare_empty_self:
  "Compare p [] [] = Returns (NaN, None) \<and> Distance [] [] = Returns (Some [], None)"
  by (simp add: Compare_def Distance_def float64_of_int_def go_int_0)

text \<open>
  C4. For slices of equal length, \<^verbatim>\<open>Compare\<close> and \<^verbatim>\<open>Distance\<close> give the same results
  (value and error) when their arguments are exchanged, on either target.
\<close>

theorem C4_symmetric:
  "length a = length b \<Longrightarrow> Compare p a b = Compare p b a \<and> Distance a b = Distance b a"
proof -
  assume len: "length a = length b"
  have "map2 (XOR) a b = map2 (XOR) b a"
    using len by (induction a b rule: list_induct2) (simp_all add: xor.commute)
  then show ?thesis
    using len total_hamming_commute [of a b]
    by (simp add: Compare_equal_length_wrapped Distance_equal_length)
qed

theorem C4_symmetric_witness:
  "length [1, 2 :: int32] = length [3, - 1 :: int32] \<and>
   Compare Arch32 [1, 2] [3, - 1] = Compare Arch32 [3, - 1] [1, 2] \<and>
   Compare Arch64 [1, 2] [3, - 1] = Compare Arch64 [3, - 1] [1, 2] \<and>
   Distance [1, 2] [3, - 1] = Distance [3, - 1] [1, 2]"
  using C4_symmetric [of "[1, 2]" "[3, - 1]" Arch32] C4_symmetric [of "[1, 2]" "[3, - 1]" Arch64]
  by simp

text \<open>
  C5. For slices \<open>a\<close>, \<open>b\<close>, \<open>c\<close> of equal length, the element-wise XOR of
  \<^verbatim>\<open>Distance(a, b)\<close> and \<^verbatim>\<open>Distance(b, c)\<close> is \<^verbatim>\<open>Distance(a, c)\<close>; and
  \<^verbatim>\<open>Distance(a, b)\<close> has the length of the inputs and holds \<open>a[i] XOR b[i]\<close> at index \<open>i\<close>.
\<close>

theorem C5_Distance_xor:
  "length a = length b \<Longrightarrow> length b = length c \<Longrightarrow>
   \<exists>ab bc ac.
     Distance a b = Returns (Some ab, None) \<and>
     Distance b c = Returns (Some bc, None) \<and>
     Distance a c = Returns (Some ac, None) \<and>
     map2 (XOR) ab bc = ac \<and>
     length ab = length a \<and>
     (\<forall>i. i < length a \<longrightarrow> ab ! i = a ! i XOR b ! i)"
proof -
  assume ab: "length a = length b" and bc: "length b = length c"
  have "map2 (XOR) (map2 (XOR) a b) (map2 (XOR) b c) = map2 (XOR) a c"
    using ab bc
  proof (induction a b c rule: list_induct3)
    case Nil
    then show ?case by simp
  next
    case (Cons x xs y ys z zs)
    have "(x XOR y) XOR (y XOR z) = x XOR z"
      by (simp add: xor.assoc)
    with Cons show ?case by simp
  qed
  with ab bc show ?thesis
    by (simp add: Distance_equal_length)
qed

theorem C5_Distance_xor_witness:
  "length [1, 2 :: int32] = length [3, 4 :: int32] \<and>
   length [3, 4 :: int32] = length [5, - 6 :: int32] \<and>
   (\<exists>ab bc ac.
     Distance [1, 2] [3, 4] = Returns (Some ab, None) \<and>
     Distance [3, 4] [5, - 6] = Returns (Some bc, None) \<and>
     Distance [1, 2] [5, - 6] = Returns (Some ac, None) \<and>
     map2 (XOR) ab bc = ac \<and> length ab = 2 \<and> ab ! 0 = 1 XOR 3 \<and> ab ! 1 = 2 XOR 4)"
proof -
  from C5_Distance_xor [of "[1, 2]" "[3, 4]" "[5, - 6]"]
  obtain ab bc ac where
    "Distance [1, 2] [3, 4] = Returns (Some ab, None)"
    "Distance [3, 4] [5, - 6] = Returns (Some bc, None)"
    "Distance [1, 2] [5, - 6] = Returns (Some ac, None)"
    "map2 (XOR) ab bc = ac" "length ab = 2"
    "\<And>i. i < 2 \<Longrightarrow> ab ! i = [1, 2 :: int32] ! i XOR [3, 4] ! i"
    by auto
  moreover from this(6) [of 0] this(6) [of 1] have "ab ! 0 = 1 XOR 3" "ab ! 1 = 2 XOR 4"
    by simp_all
  ultimately show ?thesis by simp
qed

text \<open>
  Where the divisor does not wrap, the score is a number between \<open>0\<close> and \<open>1\<close>: always
  on a 64-bit target, where a slice has fewer than \<open>2^58\<close> elements, and below \<open>2^26\<close>
  elements on a 32-bit target.
\<close>

lemma Compare_score_bounded:
  assumes len: "length a = length b" and ne: "a \<noteq> []"
    and fits: "int (length a) * 32 < 2 ^ (intSize p - 1)"
  shows "\<exists>r. Compare p a b = Returns (Fin r, None) \<and> 0 \<le> r \<and> r \<le> 1"
proof -
  let ?D = "total_hamming a b" and ?n = "int (length a)"
  have n: "0 < ?n" using ne by simp
  have D0: "0 \<le> ?D" by (rule total_hamming_nonneg)
  have D1: "?D \<le> 32 * ?n" using len by (rule total_hamming_le)
  let ?q = "(of_int ?D :: rat) / (of_int ?n * 32)"
  have "0 \<le> ?q" using D0 n by simp
  moreover have "?q \<le> 1"
  proof -
    have "(of_int ?D :: rat) \<le> of_int (32 * ?n)" using D1 by (simp only: of_int_le_iff)
    then show ?thesis using n by (simp add: divide_le_eq mult.commute)
  qed
  ultimately show ?thesis
    using ne by (simp add: Compare_equal_length [OF len fits])
qed

lemma total_hamming_one_differs: "total_hamming (0 # replicate m 0) (1 # replicate m 0) = 1"
proof -
  have "total_hamming (replicate m 0) (replicate m 0) = 0"
    by (simp add: total_hamming_eq_0)
  moreover have "hamming 0 1 = 1"
    by (simp add: hamming_def FormatInt2_def formatBits.simps strings_Count_def)
  ultimately show ?thesis by (simp add: total_hamming_def)
qed

text \<open>
  C6. The claim: for slices of equal, non-zero length the score of \<^verbatim>\<open>Compare\<close> lies between
  \<open>0\<close> and \<open>1\<close>. On a 32-bit target the product \<^verbatim>\<open>len(fprint1)*bitsperint\<close> wraps: for
  \<open>2^26\<close> elements it is \<open>-2^31\<close>. Two such slices that differ in one bit have the
  distance \<open>1\<close>, and \<^verbatim>\<open>Compare\<close> returns \<open>1 - 1 / (-2^31)\<close>, which is above \<open>1\<close>.
\<close>

theorem C6_score_above_one_on_32_bit:
  "Compare Arch32 (0 # replicate (2 ^ 26 - 1) 0) (1 # replicate (2 ^ 26 - 1) 0) =
     Returns (Fin (1 + 1 / 2 ^ 31), None) \<and>
   (1 :: rat) < 1 + 1 / 2 ^ 31"
proof -
  define m :: nat where "m = 2 ^ 26 - 1"
  let ?a = "0 # replicate m (0 :: int32)" and ?b = "1 # replicate m (0 :: int32)"
  have len: "length ?a = length ?b" by simp
  have D: "go_int Arch32 (total_hamming ?a ?b) = 1"
    by (simp add: total_hamming_one_differs go_int_def)
  have "int (length ?a) * 32 = 2 ^ 31" by (simp add: m_def)
  then have N: "go_int Arch32 (int (length ?a) * 32) = - (2 ^ 31)"
    by (simp only: go_int_def intSize.simps) simp
  have "Compare Arch32 ?a ?b = Returns (Fin (1 + 1 / 2 ^ 31), None)"
    unfolding Compare_equal_length_wrapped [OF len] D N by simp
  then show ?thesis unfolding m_def by simp
qed





text \<open>
  C9. On two empty slices \<^verbatim>\<open>Compare\<close> passes its length check and returns no error; the
  loop leaves the distance at \<open>0\<close>, the divisor \<^verbatim>\<open>len(fprint1)*bitsperint\<close> is \<open>0\<close>, and
  the score is \<open>1 - 0.0/0.0\<close>, which is NaN. This is so on either target.
\<close>

theorem C9_Compare_empty_zero_divisor:
  "Compare_loop p [] [] 0 0 = Returns 0 \<and>
   float64_of_int (go_int p (int (length ([] :: int32 list)) * bitsperint)) = Fin 0 \<and>
   f64_div (float64_of_int 0) (Fin 0) = NaN \<and>
   Compare p [] [] =
     Returns (f64_sub (Fin 1)
                (f64_div (float64_of_int 0)
                   (float64_of_int (go_int p (int (length ([] :: int32 list)) * bitsperint)))),
              None) \<and>
   Compare p [] [] = Returns (NaN, None)"
  by (simp add: Compare_def float64_of_int_def go_int_0)

text \<open>
  Where the divisor does not wrap, \<^verbatim>\<open>Compare\<close> returns exactly \<open>1\<close> if and only if the two
  slices are equal: the accumulated distance is \<open>0\<close> precisely when every
  \<open>a[i] XOR b[i]\<close> is \<open>0\<close>.
\<close>

lemma Compare_one_iff_equal:
  assumes len: "length a = length b" and ne: "a \<noteq> []"
    and fits: "int (length a) * 32 < 2 ^ (intSize p - 1)"
  shows "(Compare p a b = Returns (Fin 1, None) \<longleftrightarrow> a = b) \<and>
   (Compare_loop p a b 0 0 = Returns 0 \<longleftrightarrow> (\<forall>i. i < length a \<longrightarrow> a ! i XOR b ! i = 0)) \<and>
   ((\<forall>i. i < length a \<longrightarrow> a ! i XOR b ! i = 0) \<longleftrightarrow> a = b)"
proof -
  have n: "(of_int (int (length a)) :: rat) * 32 \<noteq> 0" using ne by simp
  have "Compare p a b = Returns (Fin 1, None) \<longleftrightarrow> total_hamming a b = 0"
    using ne n by (simp add: Compare_equal_length [OF len fits])
  then have one: "Compare p a b = Returns (Fin 1, None) \<longleftrightarrow> a = b"
    using len by (simp add: total_hamming_eq_0)
  have D0: "0 \<le> total_hamming a b" by (rule total_hamming_nonneg)
  have D1: "total_hamming a b \<le> 32 * int (length a)" using len by (rule total_hamming_le)
  have "go_int p (total_hamming a b) = total_hamming a b"
    using D0 D1 fits by (intro go_int_eq_self) simp_all
  then have "Compare_loop p a b 0 0 = Returns (total_hamming a b)"
    using len by (simp add: Compare_loop_eq go_int_0 total_hamming_def)
  then have loop: "Compare_loop p a b 0 0 = Returns 0 \<longleftrightarrow> a = b"
    using len by (simp add: total_hamming_eq_0)
  have xor: "(\<forall>i. i < length a \<longrightarrow> a ! i XOR b ! i = 0) \<longleftrightarrow> a = b"
    using len by (simp add: xor_eq_0_iff_word list_eq_iff_nth_eq)
  from one loop xor show ?thesis by simp
qed

text \<open>
  C10. The claim: for slices of equal, non-zero length \<^verbatim>\<open>Compare\<close> returns exactly \<open>1\<close>
  if and only if the slices are equal. On a 32-bit target the product
  \<^verbatim>\<open>len(fprint1)*bitsperint\<close> wraps to \<open>0\<close> for \<open>2^27\<close> elements, and \<^verbatim>\<open>Compare\<close> of such
  a slice with itself divides \<open>0.0\<close> by \<open>0.0\<close> and returns NaN, not \<open>1\<close>.
\<close>

theorem C10_equal_slices_NaN_on_32_bit:
  "Compare Arch32 (replicate (2 ^ 27) 0) (replicate (2 ^ 27) 0) = Returns (NaN, None)"
proof -
  define a :: "int32 list" where "a = replicate (2 ^ 27) 0"
  have "total_hamming a a = 0"
    by (simp add: total_hamming_eq_0)
  then have D: "go_int Arch32 (total_hamming a a) = 0"
    by (simp add: go_int_0)
  have "int (length a) * 32 = 2 ^ 32" by (simp add: a_def)
  then have N: "go_int Arch32 (int (length a) * 32) = 0"
    by (simp only: go_int_def intSize.simps) simp
  have "Compare Arch32 a a = Returns (NaN, None)"
    unfolding Compare_equal_length_wrapped [OF refl] D N by simp
  then show ?thesis unfolding a_def .
qed

end
